theory Spec2Isabelle
  imports Main "HOL-Library.Word"
begin

section \<open>Surface syntax and free variables (main.ts)\<close>

type_synonym name = string

text \<open>
  JavaScript numbers are modelled by the natural numbers they denote. The only numbers the
  compiler handles are results of \<open>parseInt\<close> on digit strings and increments of a
  counter, which are exact below \<open>2 ^ 53\<close>.
\<close>

type_synonym number = nat

text \<open>\<open>type Tree\<close>: the tagged variants \<open>Num\<close>, \<open>Var\<close>, \<open>Lam\<close>, \<open>App\<close>, \<open>Let\<close>.\<close>

datatype tree =
    Num number
  | Var name
  | Lam name tree
  | App tree tree
  | LetT name tree tree

text \<open>
  A JavaScript \<open>Set\<close> of strings iterates in insertion order and ignores the insertion of
  an element it already holds. It is modelled by the list of its elements in iteration order;
  \<open>new_Set xs\<close> is \<open>new Set(xs)\<close>.
\<close>

fun Set_add :: "'a list \<Rightarrow> 'a \<Rightarrow> 'a list" where
  "Set_add s x = (if x \<in> set s then s else s @ [x])"

definition new_Set :: "'a list \<Rightarrow> 'a list" where
  "new_Set xs = foldl Set_add [] xs"

fun free :: "tree \<Rightarrow> name list" where
  "free (Var data) = new_Set [data]"
| "free (Num _) = new_Set []"
| "free (Lam prop body) = new_Set (filter (\<lambda>x. x \<noteq> prop) (free body))"
| "free (App func argm) = new_Set (free func @ free argm)"
| "free (LetT name bind body) =
    (let freeBind = free bind;
         freeExpr = filter (\<lambda>x. x \<noteq> name) freeBind;
         freeBody = free body
     in new_Set (freeExpr @ freeBody))"

text \<open>Template-literal rendering of a non-negative integer: its decimal digits.\<close>

definition digit_char :: "nat \<Rightarrow> char" where
  "digit_char n = ''0123456789'' ! n"

fun show_nat :: "nat \<Rightarrow> string" where
  "show_nat n = (if n < 10 then [digit_char n] else show_nat (n div 10) @ [digit_char (n mod 10)])"

declare show_nat.simps [simp del]

section \<open>The intermediate representation (main.ts)\<close>

datatype expr =
    ENum number
  | ERef name
  | EIdx name nat
  | EApp name expr
  | ECls name "expr list"
  | ELet name expr expr

datatype topl =
    TDecl nat name name name expr
  | TMain expr

type_synonym prog = "topl list"

section \<open>Mutable objects: the fresh-name counter and the substitution context\<close>

text \<open>
  \<open>State\<close> and \<open>Context\<close> values are JavaScript objects that their methods update in place
  and hand back, so the model keeps them in an explicit store and passes references.

  \<^item> A \<open>State\<close> object made by \<open>makeState\<close> has the prototype \<open>StateProto\<close> and at first no
    property of its own; \<open>curr_own\<close> holds its own \<open>curr\<close> property once one is assigned.
    Reading \<open>curr\<close> without an own property yields \<open>StateProto.curr\<close>, which stays \<open>0\<close>
    (\<open>StateProto\<close> is not exported and \<open>next\<close> is never called on it).
  \<^item> A \<open>Context\<close> is represented by the reference of the \<open>Map\<close> object its methods work on.
    In the closure-based \<open>makeContext\<close> that is the \<open>Map\<close> allocated by the call; in the
    prototype-based one no context has a \<open>map\<close> property of its own, so \<open>this.map\<close> is
    \<open>contextProto.map\<close> for every context.
\<close>

type_synonym ref = nat

text \<open>
  The store: the own \<open>curr\<close> of every \<open>State\<close> object, the entries of every \<open>Map\<close>, and how
  many of each have been allocated.
\<close>

record world =
  curr_own :: "ref \<Rightarrow> number option"
  state_count :: nat
  maps :: "ref \<Rightarrow> (name \<rightharpoonup> expr)"
  map_count :: nat

subsection \<open>state.ts\<close>

definition StateProto_curr :: number where
  "StateProto_curr = 0"

definition State_curr :: "ref \<Rightarrow> world \<Rightarrow> number" where
  "State_curr s w = (case curr_own w s of None \<Rightarrow> StateProto_curr | Some c \<Rightarrow> c)"

text \<open>\<open>makeState = () => Object.create(StateProto)\<close>: a new object without own properties.\<close>

definition makeState :: "world \<Rightarrow> ref \<times> world" where
  "makeState w =
    (let s = state_count w
     in (s, w\<lparr>curr_own := (curr_own w)(s := None), state_count := s + 1\<rparr>))"

text \<open>\<open>next() { this.curr += 1; return pair(this.curr, this); }\<close>\<close>

definition State_next :: "ref \<Rightarrow> world \<Rightarrow> (number \<times> ref) \<times> world" where
  "State_next this w =
    (let w' = w\<lparr>curr_own := (curr_own w)(this \<mapsto> State_curr this w + 1)\<rparr>
     in ((State_curr this w', this), w'))"

subsection \<open>context.ts\<close>

text \<open>\<open>get(key)\<close>: \<open>Option.of(map.get(key))\<close>.\<close>

definition Context_get :: "ref \<Rightarrow> name \<Rightarrow> world \<Rightarrow> expr option" where
  "Context_get c key w = maps w c key"

text \<open>\<open>del(key)\<close>: \<open>map.delete(key)\<close>, then the context itself is returned.\<close>

definition Context_del :: "ref \<Rightarrow> name \<Rightarrow> world \<Rightarrow> ref \<times> world" where
  "Context_del c key w = (c, w\<lparr>maps := (maps w)(c := (maps w c)(key := None))\<rparr>)"

text \<open>\<open>set(key, val)\<close>: \<open>map.set(key, val)\<close>, then the context itself is returned.\<close>

definition Context_set :: "ref \<Rightarrow> name \<Rightarrow> expr \<Rightarrow> world \<Rightarrow> ref \<times> world" where
  "Context_set c key val w = (c, w\<lparr>maps := (maps w)(c := (maps w c)(key \<mapsto> val))\<rparr>)"

text \<open>The entries stored one after the other, a later entry replacing an earlier one.\<close>

fun Context_set_all :: "ref \<Rightarrow> (name \<times> expr) list \<Rightarrow> world \<Rightarrow> world" where
  "Context_set_all c [] w = w"
| "Context_set_all c ((key, val) # entries) w =
    Context_set_all c entries (snd (Context_set c key val w))"

text \<open>
  The closure-based \<open>makeContext\<close>: \<open>const map = new Map(entries)\<close>, a \<open>Map\<close> of its own for
  every context.
\<close>

definition makeContext :: "(name \<times> expr) list \<Rightarrow> world \<Rightarrow> ref \<times> world" where
  "makeContext entries w =
    (let c = map_count w;
         w' = w\<lparr>maps := (maps w)(c := Map.empty), map_count := c + 1\<rparr>
     in (c, Context_set_all c entries w'))"

text \<open>
  The prototype-based \<open>makeContext\<close>: \<open>Object.create(contextProto)\<close>, then \<open>context.set\<close>
  for every entry. The \<open>Map\<close> is the one \<open>contextProto\<close> holds, at reference \<open>0\<close>.
\<close>

definition contextProto_map :: ref where
  "contextProto_map = 0"

definition makeContext_proto :: "(name \<times> expr) list \<Rightarrow> world \<Rightarrow> ref \<times> world" where
  "makeContext_proto entries w = (contextProto_map, Context_set_all contextProto_map entries w)"

text \<open>
  The store at program start: no \<open>State\<close> yet, and one \<open>Map\<close>, the empty
  \<open>contextProto.map\<close> (unused by the closure-based module).
\<close>

definition world0 :: world where
  "world0 = \<lparr>curr_own = (\<lambda>_. None), state_count = 0, maps = (\<lambda>_. Map.empty), map_count = 1\<rparr>"

section \<open>Substitution (main.ts)\<close>

text \<open>
  \<open>substitute(map, expr)\<close>. The context \<open>map\<close> is a mutable object, so every function takes
  the store and returns it. \<open>substituteEach\<close> is \<open>body.map((expr) => substitute(map, expr))\<close>,
  which visits the elements in list order.
\<close>

definition substituteRef :: "ref \<Rightarrow> name \<Rightarrow> world \<Rightarrow> expr \<times> world" where
  "substituteRef ctx data w =
    (case Context_get ctx data w of
       Some v \<Rightarrow> (v, w)
     | None \<Rightarrow> (ERef data, w))"

function (sequential) substitute :: "ref \<Rightarrow> expr \<Rightarrow> world \<Rightarrow> expr \<times> world"
and substituteLet :: "ref \<Rightarrow> name \<Rightarrow> expr \<Rightarrow> expr \<Rightarrow> world \<Rightarrow> expr \<times> world"
and substituteCls :: "ref \<Rightarrow> name \<Rightarrow> expr list \<Rightarrow> world \<Rightarrow> expr \<times> world"
and substituteApp :: "ref \<Rightarrow> name \<Rightarrow> expr \<Rightarrow> world \<Rightarrow> expr \<times> world"
and substituteEach :: "ref \<Rightarrow> expr list \<Rightarrow> world \<Rightarrow> expr list \<times> world"
where
  "substitute ctx (ENum data) w = (ENum data, w)"
| "substitute ctx (EIdx data idx) w = (EIdx data idx, w)"
| "substitute ctx (ERef data) w = substituteRef ctx data w"
| "substitute ctx (ECls prop body) w = substituteCls ctx prop body w"
| "substitute ctx (EApp func argm) w = substituteApp ctx func argm w"
| "substitute ctx (ELet name bind body) w = substituteLet ctx name bind body w"
| "substituteLet ctx name bind body w =
    (let (newBind, w1) = substitute ctx bind w;
         (ctx', w2) = Context_del ctx name w1;
         (newBody, w3) = substitute ctx' body w2;
         newExpr = ELet name newBind newBody
     in (newExpr, w3))"
| "substituteCls ctx prop body w =
    (let (newBody, w1) = substituteEach ctx body w;
         newExpr = ECls prop newBody
     in (newExpr, w1))"
| "substituteApp ctx func argm w =
    (let (newArgm, w1) = substitute ctx argm w;
         newExpr = EApp func newArgm
     in (newExpr, w1))"
| "substituteEach ctx [] w = ([], w)"
| "substituteEach ctx (e # es) w =
    (let (e', w1) = substitute ctx e w;
         (es', w2) = substituteEach ctx es w1
     in (e' # es', w2))"
  by pat_completeness auto
termination
  by (relation "measure (\<lambda>x. case x of
      Inl (Inl (ctx, e, w)) \<Rightarrow> 2 * size e
    | Inl (Inr (ctx, name, bind, body, w)) \<Rightarrow> 2 * (size bind + size body) + 1
    | Inr (Inl (ctx, prop, body, w)) \<Rightarrow> 2 * size_list size body + 1
    | Inr (Inr (Inl (ctx, func, argm, w))) \<Rightarrow> 2 * size argm + 1
    | Inr (Inr (Inr (ctx, es, w))) \<Rightarrow> 2 * size_list size es)") auto

section \<open>Closure conversion (main.ts)\<close>

text \<open>
  \<open>type Converted = Pair<Prog, Pair<Expr, State>>\<close>, returned together with the store.
  The converter is parametrised by the \<open>makeContext\<close> it imports, since the repository
  holds two versions of that module.
\<close>

type_synonym converted = "prog \<times> (expr \<times> ref)"
type_synonym make_context = "(name \<times> expr) list \<Rightarrow> world \<Rightarrow> ref \<times> world"

definition convertNum :: "ref \<Rightarrow> number \<Rightarrow> world \<Rightarrow> converted \<times> world" where
  "convertNum state data w = (([], (ENum data, state)), w)"

definition convertVar :: "ref \<Rightarrow> name \<Rightarrow> world \<Rightarrow> converted \<times> world" where
  "convertVar state data w = (([], (ERef data, state)), w)"

text \<open>\<open>fvs.map((varName, idx) => [varName, EIdx(env, idx)])\<close>\<close>

definition index_entries :: "name \<Rightarrow> name list \<Rightarrow> (name \<times> expr) list" where
  "index_entries env fvs = map (\<lambda>(varName, idx). (varName, EIdx env idx)) (zip fvs [0..<length fvs])"

function (sequential) convert :: "make_context \<Rightarrow> ref \<Rightarrow> tree \<Rightarrow> world \<Rightarrow> converted \<times> world"
and convertLam :: "make_context \<Rightarrow> ref \<Rightarrow> name \<Rightarrow> tree \<Rightarrow> world \<Rightarrow> converted \<times> world"
and convertApp :: "make_context \<Rightarrow> ref \<Rightarrow> tree \<Rightarrow> tree \<Rightarrow> world \<Rightarrow> converted \<times> world"
and convertLet :: "make_context \<Rightarrow> ref \<Rightarrow> name \<Rightarrow> tree \<Rightarrow> tree \<Rightarrow> world \<Rightarrow> converted \<times> world"
where
  "convert mk state (Num data) w = convertNum state data w"
| "convert mk state (Var data) w = convertVar state data w"
| "convert mk state (Lam prop body) w = convertLam mk state prop body w"
| "convert mk state (App func argm) w = convertApp mk state func argm w"
| "convert mk state (LetT name bind body) w = convertLet mk state name bind body w"
| "convertLam mk state0 prop body w =
    (let ((i, state1), w1) = State_next state0 w;
         ((j, state2), w2) = State_next state1 w1;
         lam = Lam prop body;
         fvs = free lam;
         env = ''env'' @ show_nat i;
         cls = ''cls'' @ show_nat j;
         (sub, w3) = mk (index_entries env fvs) w2;
         ((xs, (res, state3)), w4) = convert mk state2 body w3;
         (bd, w5) = substitute sub res w4;
         code = TDecl (length fvs) cls env prop bd;
         refs = map ERef fvs;
         clos = ECls cls refs
     in ((xs @ [code], (clos, state3)), w5))"
| "convertApp mk state0 func argm w =
    (let ((funProg, (expr, state1)), w1) = convert mk state0 func w;
         ((nextVar, state3), w2) = State_next state1 w1;
         ((argProg, (body, state4)), w3) = convert mk state3 argm w2;
         val = ELet (''_'' @ show_nat nextVar) expr (EApp (''_'' @ show_nat nextVar) body);
         progs = funProg @ argProg
     in ((progs, (val, state4)), w3))"
| "convertLet mk state0 name bind body w =
    (let ((bindProg, (expr, state1)), w1) = convert mk state0 bind w;
         ((bodyProg, (code, state2)), w2) = convert mk state1 body w1;
         val = ELet name expr code;
         progs = bindProg @ bodyProg
     in ((progs, (val, state2)), w2))"
  by pat_completeness auto
termination
  by (relation "measure (\<lambda>x. case x of
      Inl (Inl (mk, state, tr, w)) \<Rightarrow> 2 * size tr
    | Inl (Inr (mk, state, prop, body, w)) \<Rightarrow> 2 * size body + 1
    | Inr (Inl (mk, state, func, argm, w)) \<Rightarrow> 2 * (size func + size argm) + 1
    | Inr (Inr (mk, state, name, bind, body, w)) \<Rightarrow> 2 * (size bind + size body) + 1)") auto

text \<open>\<open>convertCls\<close>: the driver, on the store \<open>w\<close> the program has reached.\<close>

definition convertCls :: "make_context \<Rightarrow> tree \<Rightarrow> world \<Rightarrow> prog \<times> world" where
  "convertCls mk tr w =
    (let (state, w1) = makeState w;
         ((decs, (code, _)), w2) = convert mk state tr w1
     in (decs @ [TMain code], w2))"

section \<open>Scanner (main.ts)\<close>

text \<open>
  \<open>type Token\<close>, and the errors the scanner and the parser throw: each \<open>throw new Error(...)\<close>
  of the source is a constructor carrying what its message names. \<open>Out_of_fuel\<close> belongs to
  the model of the parser only.
\<close>

datatype token =
    NUMBER number
  | SYMBOL string
  | SEMICOLON
  | LPAREN
  | RPAREN
  | COMMA
  | EQUAL
  | ARROW
  | FUN
  | LET
  | EOF

datatype error =
    Unexpected_character char
  | Unexpected_token token
  | Parser_error_with string
  | Expected_token string string
  | Undefined_token
  | Out_of_fuel

text \<open>
  Characters are compared as JavaScript compares one-character strings, by code unit. The
  source text is a list of 8-bit characters; a code unit beyond them would be an unexpected
  character to the scanner in any case.
  The cursor \<open>current_pos\<close> is modelled by the input still to be read: \<open>peek\<close> and \<open>peekNext\<close>
  look at its first two characters and yield the character \<open>\0\<close> past the end.
\<close>

definition code_unit :: "char \<Rightarrow> nat" where
  "code_unit c = of_char c"

definition isDigit :: "char \<Rightarrow> bool" where
  "isDigit char = (code_unit CHR ''0'' \<le> code_unit char \<and> code_unit char \<le> code_unit CHR ''9'')"

definition isAlpha :: "char \<Rightarrow> bool" where
  "isAlpha char =
    ((code_unit CHR ''a'' \<le> code_unit char \<and> code_unit char \<le> code_unit CHR ''z'')
     \<or> (code_unit CHR ''A'' \<le> code_unit char \<and> code_unit char \<le> code_unit CHR ''Z'')
     \<or> char = CHR ''_'')"

definition isAlphaNumeric :: "char \<Rightarrow> bool" where
  "isAlphaNumeric char = (isAlpha char \<or> isDigit char)"

definition peek :: "string \<Rightarrow> char" where
  "peek cs = (case cs of [] \<Rightarrow> CHR 0x00 | c # _ \<Rightarrow> c)"

definition peekNext :: "string \<Rightarrow> char" where
  "peekNext cs = (case cs of _ # c # _ \<Rightarrow> c | _ \<Rightarrow> CHR 0x00)"

text \<open>
  \<open>parseInt\<close> on a string that starts with a digit: the value of its longest prefix of decimal
  digits. The scanner calls it on nothing else.
\<close>

definition digit_value :: "char \<Rightarrow> nat" where
  "digit_value c = code_unit c - code_unit CHR ''0''"

definition digits_value :: "string \<Rightarrow> number" where
  "digits_value ds = foldl (\<lambda>n c. 10 * n + digit_value c) 0 ds"

definition parseInt :: "string \<Rightarrow> number" where
  "parseInt s = digits_value (takeWhile isDigit s)"

text \<open>
  \<open>number()\<close> and \<open>identifier()\<close>, called when \<open>advance()\<close> has returned \<open>char\<close> and \<open>cs\<close> is
  left to read. They return the token pushed and the input left; the text between \<open>start_pos\<close>
  and \<open>current_pos\<close> is \<open>char\<close> followed by the characters consumed.
\<close>

definition number :: "char \<Rightarrow> string \<Rightarrow> token \<times> string" where
  "number char cs =
    (let ds = takeWhile isDigit cs;
         r1 = dropWhile isDigit cs;
         (fs, r2) = (if peek r1 = CHR ''.'' \<and> isDigit (peekNext r1)
                     then (CHR ''.'' # takeWhile isDigit (tl r1), dropWhile isDigit (tl r1))
                     else ([], r1));
         val = parseInt (char # ds @ fs)
     in (NUMBER val, r2))"

definition reserved :: "string \<rightharpoonup> token" where
  "reserved = [''fun'' \<mapsto> FUN, ''let'' \<mapsto> LET]"

definition identifierT :: "char \<Rightarrow> string \<Rightarrow> token \<times> string" where
  "identifierT char cs =
    (let val = char # takeWhile isAlphaNumeric cs;
         r = dropWhile isAlphaNumeric cs
     in (case reserved val of None \<Rightarrow> (SYMBOL val, r) | Some token \<Rightarrow> (token, r)))"

text \<open>
  \<open>tokens.push(t)\<close>, followed by the rest of the scan: an error thrown later discards the
  tokens pushed so far. \<open>matchToken(expected)\<close> consumes the next character when it is the
  expected one.
\<close>

definition push :: "token \<Rightarrow> error + token list \<Rightarrow> error + token list" where
  "push t r = (case r of Inl e \<Rightarrow> Inl e | Inr ts \<Rightarrow> Inr (t # ts))"

definition matchToken :: "char \<Rightarrow> string \<Rightarrow> bool \<times> string" where
  "matchToken expected cs =
    (case cs of
       [] \<Rightarrow> (False, cs)
     | c # r \<Rightarrow> if c \<noteq> expected then (False, cs) else (True, r))"

text \<open>The functions of the scanner never give back more input than they got.\<close>

lemma number_rest: "(t, r) = number char cs \<Longrightarrow> length r \<le> length cs"
proof -
  have a: "length (dropWhile isDigit cs) \<le> length cs"
    by (rule length_dropWhile_le)
  have "length (dropWhile isDigit (tl (dropWhile isDigit cs))) \<le> length (tl (dropWhile isDigit cs))"
    by (rule length_dropWhile_le)
  also have "\<dots> \<le> length (dropWhile isDigit cs)"
    by simp
  finally have b: "length (dropWhile isDigit (tl (dropWhile isDigit cs))) \<le> length cs"
    using a by simp
  assume "(t, r) = number char cs"
  then show ?thesis
    using a b by (simp add: number_def Let_def split: if_splits)
qed

lemma identifier_rest: "(t, r) = identifierT char cs \<Longrightarrow> length r \<le> length cs"
  by (auto simp: identifierT_def Let_def length_dropWhile_le split: option.splits)

lemma matchToken_rest: "(b, r) = matchToken expected cs \<Longrightarrow> length r \<le> length cs"
  by (auto simp: matchToken_def split: list.splits if_splits)

text \<open>The loop of \<open>scanTokens\<close>: one turn per token or blank, then \<open>EOF\<close>.\<close>

function scanTokens :: "string \<Rightarrow> error + token list" where
  "scanTokens [] = Inr [EOF]"
| "scanTokens (char # cs) =
    (if char = CHR '' '' \<or> char = CHR 0x0D \<or> char = CHR 0x0A \<or> char = CHR 0x09 then scanTokens cs
     else if char = CHR ''('' then push LPAREN (scanTokens cs)
     else if char = CHR '')'' then push RPAREN (scanTokens cs)
     else if char = CHR ''='' then
       (case matchToken CHR ''>'' cs of (matched, r) \<Rightarrow>
          push (if matched then ARROW else EQUAL) (scanTokens r))
     else if char = CHR '';'' then push SEMICOLON (scanTokens cs)
     else if char = CHR '','' then push COMMA (scanTokens cs)
     else if isDigit char then (case number char cs of (t, r) \<Rightarrow> push t (scanTokens r))
     else if isAlpha char then (case identifierT char cs of (t, r) \<Rightarrow> push t (scanTokens r))
     else Inl (Unexpected_character char))"
  by pat_completeness auto
termination
  by (relation "measure length")
     (auto dest: number_rest identifier_rest matchToken_rest simp: less_Suc_eq_le)

definition scanner :: "string \<Rightarrow> error + token list" where
  "scanner source = scanTokens source"

section \<open>Parser (main.ts)\<close>

text \<open>
  The parser keeps the token array and a cursor \<open>current\<close>; every function of the model takes
  both and returns the new cursor with its result, or the error thrown. \<open>and_then\<close> passes a
  result on and lets an error through, as a \<open>throw\<close> does.

  The recursion of the descent is bounded by a fuel argument, used up by every call of
  \<open>expression\<close> and every turn of the loop of \<open>parseCall\<close>. \<open>Out_of_fuel\<close> is no behaviour
  of the code; \<open>parser\<close> never returns it (\<open>parser_fuel_suffices\<close> below).

  The local functions \<open>peek\<close>, \<open>previous\<close>, \<open>isAtEnd\<close>, \<open>check\<close>, \<open>advance\<close> and \<open>matchToken\<close> of
  the parser carry the prefix \<open>parser_\<close>; \<open>tag\<close> is the \<open>tag\<close> property of a token.
\<close>

definition and_then :: "error + 'a \<Rightarrow> ('a \<Rightarrow> error + 'b) \<Rightarrow> error + 'b" where
  "and_then m f = (case m of Inl e \<Rightarrow> Inl e | Inr x \<Rightarrow> f x)"

fun tag :: "token \<Rightarrow> string" where
  "tag (NUMBER _) = ''NUMBER''"
| "tag (SYMBOL _) = ''SYMBOL''"
| "tag SEMICOLON = ''SEMICOLON''"
| "tag LPAREN = ''LPAREN''"
| "tag RPAREN = ''RPAREN''"
| "tag COMMA = ''COMMA''"
| "tag EQUAL = ''EQUAL''"
| "tag ARROW = ''ARROW''"
| "tag FUN = ''FUN''"
| "tag LET = ''LET''"
| "tag EOF = ''EOF''"

text \<open>\<open>Array.prototype.at\<close>: a negative index counts from the end; \<open>None\<close> is \<open>undefined\<close>.\<close>

definition Array_at :: "'a list \<Rightarrow> int \<Rightarrow> 'a option" where
  "Array_at xs i =
    (let k = (if i < 0 then int (length xs) + i else i)
     in if 0 \<le> k \<and> k < int (length xs) then Some (xs ! nat k) else None)"

definition parser_peek :: "token list \<Rightarrow> nat \<Rightarrow> error + token" where
  "parser_peek tokens current =
    (case Array_at tokens (int current) of
       None \<Rightarrow> Inl Undefined_token
     | Some token \<Rightarrow> Inr token)"

definition parser_previous :: "token list \<Rightarrow> nat \<Rightarrow> error + token" where
  "parser_previous tokens current =
    (case Array_at tokens (int current - 1) of
       None \<Rightarrow> Inl Undefined_token
     | Some token \<Rightarrow> Inr token)"

definition fail :: "token list \<Rightarrow> nat \<Rightarrow> error + 'a" where
  "fail tokens current = and_then (parser_peek tokens current) (\<lambda>token. Inl (Unexpected_token token))"

definition parser_isAtEnd :: "token list \<Rightarrow> nat \<Rightarrow> error + bool" where
  "parser_isAtEnd tokens current =
    and_then (parser_peek tokens current) (\<lambda>token. Inr (tag token = ''EOF''))"

definition parser_check :: "token \<Rightarrow> token list \<Rightarrow> nat \<Rightarrow> error + bool" where
  "parser_check token tokens current =
    and_then (parser_isAtEnd tokens current) (\<lambda>atEnd.
      if atEnd then Inr False
      else and_then (parser_peek tokens current) (\<lambda>t. Inr (tag t = tag token)))"

definition parser_advance :: "token list \<Rightarrow> nat \<Rightarrow> error + token \<times> nat" where
  "parser_advance tokens current =
    and_then (parser_isAtEnd tokens current) (\<lambda>atEnd.
      let current' = (if \<not> atEnd then current + 1 else current)
      in and_then (parser_previous tokens current') (\<lambda>token. Inr (token, current')))"

text \<open>\<open>matchToken(...tokens)\<close>: the first of the given tokens that \<open>check\<close> accepts is consumed.\<close>

fun parser_matchToken :: "token list \<Rightarrow> token list \<Rightarrow> nat \<Rightarrow> error + bool \<times> nat" where
  "parser_matchToken [] tokens current = Inr (False, current)"
| "parser_matchToken (t # ts) tokens current =
    and_then (parser_check t tokens current) (\<lambda>ok.
      if ok then and_then (parser_advance tokens current) (\<lambda>(_, current'). Inr (True, current'))
      else parser_matchToken ts tokens current)"

definition isToken :: "string \<Rightarrow> token \<Rightarrow> bool" where
  "isToken tg token = (tag token = tg)"

text \<open>
  \<open>consume(expect)\<close> throws when \<open>expect\<close> returns a falsy value; \<open>truthy\<close> is JavaScript's
  truthiness at the type of that value. \<open>consumeToken(tag, callback)\<close> is modelled with the
  callback given: the identity where the source passes none.
\<close>

definition consume ::
  "(token \<Rightarrow> error + 'a) \<Rightarrow> ('a \<Rightarrow> bool) \<Rightarrow> token list \<Rightarrow> nat \<Rightarrow> error + 'a \<times> nat" where
  "consume expect truthy tokens current =
    and_then (parser_peek tokens current) (\<lambda>currentToken.
    and_then (expect currentToken) (\<lambda>expectedValue.
      if \<not> truthy expectedValue then Inl (Parser_error_with (tag currentToken))
      else and_then (parser_advance tokens current) (\<lambda>(_, current'). Inr (expectedValue, current'))))"

definition consumeToken ::
  "string \<Rightarrow> (token \<Rightarrow> 'a) \<Rightarrow> ('a \<Rightarrow> bool) \<Rightarrow> token list \<Rightarrow> nat \<Rightarrow> error + 'a \<times> nat" where
  "consumeToken tg callback truthy tokens current =
    consume (\<lambda>token. if \<not> isToken tg token then Inl (Expected_token tg (tag token))
                     else Inr (callback token)) truthy tokens current"

text \<open>
  \<open>(token) => token.value\<close>, which \<open>consumeToken\<close> applies to tokens of the expected tag only.
  A number is falsy when it is \<open>0\<close>, a string when it is empty, an object never.
\<close>

fun token_value_number :: "token \<Rightarrow> number" where
  "token_value_number (NUMBER v) = v"
| "token_value_number _ = 0"

fun token_value_string :: "token \<Rightarrow> string" where
  "token_value_string (SYMBOL v) = v"
| "token_value_string _ = []"

definition truthy_number :: "number \<Rightarrow> bool" where
  "truthy_number n = (n \<noteq> 0)"

definition truthy_string :: "string \<Rightarrow> bool" where
  "truthy_string s = (s \<noteq> [])"

definition truthy_object :: "'a \<Rightarrow> bool" where
  "truthy_object x = True"

definition parseNumber :: "token list \<Rightarrow> nat \<Rightarrow> error + tree \<times> nat" where
  "parseNumber tokens current =
    and_then (consumeToken ''NUMBER'' token_value_number truthy_number tokens current)
      (\<lambda>(v, current'). Inr (Num v, current'))"

definition parseSymbol :: "token list \<Rightarrow> nat \<Rightarrow> error + tree \<times> nat" where
  "parseSymbol tokens current =
    and_then (consumeToken ''SYMBOL'' token_value_string truthy_string tokens current)
      (\<lambda>(v, current'). Inr (Var v, current'))"

text \<open>
  The mutually recursive parsing functions. \<open>parseCall\<close> carries the array \<open>args\<close> of its
  loop; \<open>args.reduce((fn, arg) => App(fn, arg), func)\<close> is \<open>foldl App func args\<close>.
\<close>

function (sequential) expression :: "nat \<Rightarrow> token list \<Rightarrow> nat \<Rightarrow> error + tree \<times> nat"
and parseLet :: "nat \<Rightarrow> token list \<Rightarrow> nat \<Rightarrow> error + tree \<times> nat"
and parseFun :: "nat \<Rightarrow> token list \<Rightarrow> nat \<Rightarrow> error + tree \<times> nat"
and parseApp :: "nat \<Rightarrow> token list \<Rightarrow> nat \<Rightarrow> error + tree \<times> nat"
and parseAtom :: "nat \<Rightarrow> token list \<Rightarrow> nat \<Rightarrow> error + tree \<times> nat"
and parseParens :: "nat \<Rightarrow> token list \<Rightarrow> nat \<Rightarrow> error + tree \<times> nat"
and parseCall :: "nat \<Rightarrow> tree \<Rightarrow> tree list \<Rightarrow> token list \<Rightarrow> nat \<Rightarrow> error + tree \<times> nat"
where
  "expression 0 tokens current = Inl Out_of_fuel"
| "expression (Suc n) tokens current =
    and_then (parser_matchToken [LET] tokens current) (\<lambda>(isLet, c1).
      if isLet then parseLet n tokens c1
      else and_then (parser_matchToken [FUN] tokens c1) (\<lambda>(isFun, c2).
        if isFun then parseFun n tokens c2
        else parseApp n tokens c2))"
| "parseLet n tokens current =
    and_then (consumeToken ''SYMBOL'' token_value_string truthy_string tokens current) (\<lambda>(name, c1).
    and_then (consumeToken ''EQUAL'' id truthy_object tokens c1) (\<lambda>(_, c2).
    and_then (expression n tokens c2) (\<lambda>(bind, c3).
    and_then (consumeToken ''SEMICOLON'' id truthy_object tokens c3) (\<lambda>(_, c4).
    and_then (expression n tokens c4) (\<lambda>(body, c5).
      Inr (LetT name bind body, c5))))))"
| "parseFun n tokens current =
    and_then (consumeToken ''SYMBOL'' token_value_string truthy_string tokens current) (\<lambda>(param, c1).
    and_then (consumeToken ''ARROW'' id truthy_object tokens c1) (\<lambda>(_, c2).
    and_then (expression n tokens c2) (\<lambda>(body, c3).
      Inr (Lam param body, c3))))"
| "parseApp n tokens current =
    and_then (parseAtom n tokens current) (\<lambda>(func, c1).
    and_then (parser_matchToken [LPAREN] tokens c1) (\<lambda>(isCall, c2).
      if isCall then parseCall n func [] tokens c2
      else Inr (func, c2)))"
| "parseAtom n tokens current =
    and_then (parser_peek tokens current) (\<lambda>t.
      if isToken ''NUMBER'' t then parseNumber tokens current
      else if isToken ''SYMBOL'' t then parseSymbol tokens current
      else if isToken ''LPAREN'' t then parseParens n tokens current
      else fail tokens current)"
| "parseParens n tokens current =
    and_then (consumeToken ''LPAREN'' id truthy_object tokens current) (\<lambda>(_, c1).
    and_then (expression n tokens c1) (\<lambda>(val, c2).
    and_then (consumeToken ''RPAREN'' id truthy_object tokens c2) (\<lambda>(_, c3).
      Inr (val, c3))))"
| "parseCall 0 func args tokens current = Inl Out_of_fuel"
| "parseCall (Suc n) func args tokens current =
    and_then (expression n tokens current) (\<lambda>(arg, c1).
    and_then (parser_matchToken [COMMA] tokens c1) (\<lambda>(isComma, c2).
      if isComma then parseCall n func (args @ [arg]) tokens c2
      else and_then (parser_matchToken [RPAREN] tokens c2) (\<lambda>(_, c3).
        Inr (foldl App func (args @ [arg]), c3))))"
  by pat_completeness auto
termination
  by (relation "measure (\<lambda>x. case x of
      Inl (Inl (n, tokens, current)) \<Rightarrow> 4 * n
    | Inl (Inr (Inl (n, tokens, current))) \<Rightarrow> 4 * n + 1
    | Inl (Inr (Inr (n, tokens, current))) \<Rightarrow> 4 * n + 1
    | Inr (Inl (Inl (n, tokens, current))) \<Rightarrow> 4 * n + 3
    | Inr (Inl (Inr (n, tokens, current))) \<Rightarrow> 4 * n + 2
    | Inr (Inr (Inl (n, tokens, current))) \<Rightarrow> 4 * n + 1
    | Inr (Inr (Inr (n, func, args, tokens, current))) \<Rightarrow> 4 * n + 1)") auto

text \<open>\<open>parser(initial)\<close>: \<open>expression()\<close> from the first token; the cursor reached is dropped.\<close>

definition parser :: "token list \<Rightarrow> error + tree" where
  "parser initial =
    and_then (expression (2 * length initial + 1) initial 0) (\<lambda>(tr, _). Inr tr)"

section \<open>Code generation (main.ts)\<close>

text \<open>
  \<open>type Build = (_: string) => Code\<close>: the continuation that turns the text of a value into a
  code fragment. \<open>join\<close> is \<open>Array.prototype.join\<close>.
\<close>

type_synonym code = string
type_synonym build = "string \<Rightarrow> code"

fun join :: "string \<Rightarrow> string list \<Rightarrow> string" where
  "join sep [] = []"
| "join sep [x] = x"
| "join sep (x # y # ys) = x @ sep @ join sep (y # ys)"

definition bindReturn :: "name \<Rightarrow> build" where
  "bindReturn bind = (\<lambda>body. bind @ '' = '' @ body @ '';'')"

definition exprReturn :: build where
  "exprReturn expr = ''return '' @ expr @ '';''"

definition callReturn :: build where
  "callReturn expr = ''print_val('' @ expr @ '');''"

definition sameReturn :: build where
  "sameReturn expr = expr"

definition codegenRef :: "build \<Rightarrow> string \<Rightarrow> code" where
  "codegenRef build data = build data"

definition codegenNum :: "build \<Rightarrow> number \<Rightarrow> code" where
  "codegenNum build data = build (''build_int('' @ show_nat data @ '')'')"

definition codegenIdx :: "build \<Rightarrow> string \<Rightarrow> nat \<Rightarrow> code" where
  "codegenIdx build data index = build (data @ ''['' @ show_nat index @ '']'')"

function (sequential) codegenExpr :: "build \<Rightarrow> expr \<Rightarrow> code"
and codegenApp :: "build \<Rightarrow> name \<Rightarrow> expr \<Rightarrow> code"
and codegenLet :: "build \<Rightarrow> name \<Rightarrow> expr \<Rightarrow> expr \<Rightarrow> code"
and codegenCls :: "build \<Rightarrow> name \<Rightarrow> expr list \<Rightarrow> code"
where
  "codegenExpr build (ENum data) = codegenNum build data"
| "codegenExpr build (ERef data) = codegenRef build data"
| "codegenExpr build (EIdx data idx) = codegenIdx build data idx"
| "codegenExpr build (EApp func argm) = codegenApp build func argm"
| "codegenExpr build (ECls prop body) = codegenCls build prop body"
| "codegenExpr build (ELet name bind body) = codegenLet build name bind body"
| "codegenApp build func argm =
    (let code = codegenExpr sameReturn argm;
         expr = func @ ''->c.code('' @ func @ ''->c.env, '' @ code @ '')''
     in build expr)"
| "codegenLet build name bind body =
    (let expr = bindReturn name;
         code = codegenExpr expr bind;
         cont = codegenExpr build body
     in join [CHR 0x0A] [''struct val *'' @ name @ '';'', code, cont])"
| "codegenCls build prop body =
    (let code = map (\<lambda>expr. codegenExpr build expr) body;
         cont = join '', '' code
     in build (''build_cls('' @ prop @ '', (struct val *['' @ show_nat (length body) @ '']){ ''
               @ cont @ '' })''))"
  by pat_completeness auto
termination
  by (relation "measure (\<lambda>x. case x of
      Inl (Inl (build, e)) \<Rightarrow> 2 * size e
    | Inl (Inr (build, func, argm)) \<Rightarrow> 2 * size argm + 1
    | Inr (Inl (build, name, bind, body)) \<Rightarrow> 2 * (size bind + size body) + 1
    | Inr (Inr (build, prop, body)) \<Rightarrow> 2 * size_list size body + 1)")
     (auto simp: less_Suc_eq_le size_list_estimation')

text \<open>
  The repository holds a second copy of the compiler, which differs in \<open>codegenCls\<close>: it renders
  the captured expressions with \<open>sameReturn\<close> where the first copy passes \<open>build\<close> on. The
  primed functions are that copy.
\<close>

function (sequential) codegenExpr' :: "build \<Rightarrow> expr \<Rightarrow> code"
and codegenApp' :: "build \<Rightarrow> name \<Rightarrow> expr \<Rightarrow> code"
and codegenLet' :: "build \<Rightarrow> name \<Rightarrow> expr \<Rightarrow> expr \<Rightarrow> code"
and codegenCls' :: "build \<Rightarrow> name \<Rightarrow> expr list \<Rightarrow> code"
where
  "codegenExpr' build (ENum data) = codegenNum build data"
| "codegenExpr' build (ERef data) = codegenRef build data"
| "codegenExpr' build (EIdx data idx) = codegenIdx build data idx"
| "codegenExpr' build (EApp func argm) = codegenApp' build func argm"
| "codegenExpr' build (ECls prop body) = codegenCls' build prop body"
| "codegenExpr' build (ELet name bind body) = codegenLet' build name bind body"
| "codegenApp' build func argm =
    (let code = codegenExpr' sameReturn argm;
         expr = func @ ''->c.code('' @ func @ ''->c.env, '' @ code @ '')''
     in build expr)"
| "codegenLet' build name bind body =
    (let expr = bindReturn name;
         code = codegenExpr' expr bind;
         cont = codegenExpr' build body
     in join [CHR 0x0A] [''struct val *'' @ name @ '';'', code, cont])"
| "codegenCls' build prop body =
    (let code = map (\<lambda>expr. codegenExpr' sameReturn expr) body;
         cont = join '', '' code
     in build (''build_cls('' @ prop @ '', (struct val *['' @ show_nat (length body) @ '']){ ''
               @ cont @ '' })''))"
  by pat_completeness auto
termination
  by (relation "measure (\<lambda>x. case x of
      Inl (Inl (build, e)) \<Rightarrow> 2 * size e
    | Inl (Inr (build, func, argm)) \<Rightarrow> 2 * size argm + 1
    | Inr (Inl (build, name, bind, body)) \<Rightarrow> 2 * (size bind + size body) + 1
    | Inr (Inr (build, prop, body)) \<Rightarrow> 2 * size_list size body + 1)")
     (auto simp: less_Suc_eq_le size_list_estimation')

section \<open>The runtime's printer (driver.c)\<close>

text \<open>
  \<open>print_val\<close> reads the tag of a \<open>val_t\<close> and the member \<open>c.integer\<close> of its union, nothing
  else. A value is modelled by these two: \<open>c_integer\<close> is the \<open>int\<close> read through
  \<open>c.integer\<close>, which for a closure is whatever the bytes of its code pointer give. The
  result is the text written to the standard output.
\<close>

datatype val_tag = CLOSURE_T | INT_T

record val_t =
  tag_of :: val_tag
  c_integer :: "32 word"

text \<open>\<open>printf("%d\n", i)\<close>: the signed decimal digits and a newline.\<close>

definition show_int :: "int \<Rightarrow> string" where
  "show_int i = (if i < 0 then ''-'' @ show_nat (nat (- i)) else show_nat (nat i))"

definition printf_d_newline :: "32 word \<Rightarrow> string" where
  "printf_d_newline i = show_int (sint i) @ [CHR 0x0A]"

text \<open>
  The \<open>switch\<close> has no \<open>break\<close>: control enters at the label of the tag and runs through the
  statements of every later label up to the \<open>return\<close> under \<open>default\<close>.
\<close>

definition print_val :: "val_t \<Rightarrow> string" where
  "print_val v =
    (let out0 = [];
         out1 = (if tag_of v = CLOSURE_T then out0 @ ''<#closure>'' @ [CHR 0x0A] else out0);
         out2 = (if tag_of v = CLOSURE_T \<or> tag_of v = INT_T
                 then out1 @ printf_d_newline (c_integer v) else out1)
     in out2)"

section \<open>Predicates and inputs the properties refer to\<close>

text \<open>
  The scoping condition of closure-conversion soundness: every \<open>Ref\<close> node names a member of
  \<open>sc\<close> or a name bound by a \<open>Let\<close> node around it. The reading is the permissive one: a
  \<open>Let\<close> counts as enclosing its \<open>bind\<close> as well as its \<open>body\<close>.
\<close>

fun refs_in_scope :: "name list \<Rightarrow> expr \<Rightarrow> bool" where
  "refs_in_scope sc (ENum data) = True"
| "refs_in_scope sc (ERef data) = (data \<in> set sc)"
| "refs_in_scope sc (EIdx data idx) = True"
| "refs_in_scope sc (EApp func argm) = refs_in_scope sc argm"
| "refs_in_scope sc (ECls prop body) = list_all (refs_in_scope sc) body"
| "refs_in_scope sc (ELet name bind body) =
    (refs_in_scope (name # sc) bind \<and> refs_in_scope (name # sc) body)"

text \<open>The tree of \<open>let z = 5; fun y => (let z = fun a => a; z)(z)\<close>.\<close>

definition shadow_tree :: tree where
  "shadow_tree =
    LetT ''z'' (Num 5)
      (Lam ''y'' (App (LetT ''z'' (Lam ''a'' (Var ''a'')) (Var ''z'')) (Var ''z'')))"

text \<open>A context holding the single entry \<open>x \<mapsto> Idx(env, 0)\<close>, and the store it lives in.\<close>

definition x_context :: "ref \<times> world" where
  "x_context = makeContext [(''x'', EIdx ''env'' 0)] world0"

text \<open>The names bound by the \<open>Let\<close> nodes of an expression.\<close>

fun let_names :: "expr \<Rightarrow> name set" where
  "let_names (ENum data) = {}"
| "let_names (ERef data) = {}"
| "let_names (EIdx data idx) = {}"
| "let_names (EApp func argm) = let_names argm"
| "let_names (ECls prop body) = \<Union> (set (map let_names body))"
| "let_names (ELet name bind body) = insert name (let_names bind \<union> let_names body)"

fun let_free :: "expr \<Rightarrow> bool" where
  "let_free (ENum data) = True"
| "let_free (ERef data) = True"
| "let_free (EIdx data idx) = True"
| "let_free (EApp func argm) = let_free argm"
| "let_free (ECls prop body) = list_all let_free body"
| "let_free (ELet name bind body) = False"

text \<open>The store after the keys \<open>ns\<close> have been deleted from the \<open>Map\<close> of the context \<open>c\<close>.\<close>

definition drop_keys :: "ref \<Rightarrow> name set \<Rightarrow> world \<Rightarrow> world" where
  "drop_keys c ns w = w\<lparr>maps := (maps w)(c := (\<lambda>k. if k \<in> ns then None else maps w c k))\<rparr>"

text \<open>
  The substitution as the specification words it (section 4.4), on an immutable map: a
  structural copy that replaces \<open>Ref(n)\<close> by \<open>map[n]\<close> when present and removes the name of a
  \<open>Let\<close> from the map for the body of that \<open>Let\<close> only.
\<close>

fun substitute_spec :: "(name \<rightharpoonup> expr) \<Rightarrow> expr \<Rightarrow> expr" where
  "substitute_spec m (ENum data) = ENum data"
| "substitute_spec m (EIdx data idx) = EIdx data idx"
| "substitute_spec m (ERef data) = (case m data of Some v \<Rightarrow> v | None \<Rightarrow> ERef data)"
| "substitute_spec m (ECls prop body) = ECls prop (map (substitute_spec m) body)"
| "substitute_spec m (EApp func argm) = EApp func (substitute_spec m argm)"
| "substitute_spec m (ELet name bind body) =
    ELet name (substitute_spec m bind) (substitute_spec (m(name := None)) body)"

section \<open>Properties\<close>

subsection \<open>Free variables\<close>

text \<open>
  C5. The claim: in \<open>Let(n, bind, body)\<close> the name \<open>n\<close> scopes over \<open>body\<close> only, so an
  occurrence of \<open>n\<close> free in \<open>bind\<close> is free in the \<open>Let\<close>, and occurrences of \<open>n\<close> in \<open>body\<close>
  contribute nothing to \<open>free\<close>.

  \<open>free\<close> filters \<open>name\<close> out of the free variables of \<open>bind\<close> and not out of those of
  \<open>body\<close>, the reverse of the claim: for \<open>let x = x; 1\<close> it returns the empty set, and for
  \<open>let x = 1; x\<close> it returns \<open>{x}\<close>. So the closed lambda \<open>fun y => let x = 5; x\<close> is taken
  to capture \<open>x\<close>.
\<close>

theorem free_Let_filters_bind:
  "free (LetT ''x'' (Var ''x'') (Num 1)) = []
   \<and> free (LetT ''x'' (Num 1) (Var ''x'')) = [''x'']
   \<and> free (Lam ''y'' (LetT ''x'' (Num 5) (Var ''x''))) = [''x'']"
  by code_simp

lemma set_foldl_Set_add: "set (foldl Set_add acc xs) = set acc \<union> set xs"
  by (induction xs arbitrary: acc) auto

lemma set_new_Set: "set (new_Set xs) = set xs"
  by (simp add: new_Set_def set_foldl_Set_add)

lemma distinct_foldl_Set_add: "distinct acc \<Longrightarrow> distinct (foldl Set_add acc xs)"
  by (induction xs arbitrary: acc) auto

lemma distinct_new_Set: "distinct (new_Set xs)"
  by (simp add: new_Set_def distinct_foldl_Set_add)

text \<open>The parameter of a lambda is never among the free variables \<open>free\<close> finds for it.\<close>

theorem free_Lam_excludes_param: "prop \<notin> set (free (Lam prop body))"
  by (simp add: set_new_Set)

text \<open>
  The list \<open>free\<close> returns holds no name twice, so a captured name has one position in the
  captured list of a closure.
\<close>

theorem free_distinct: "distinct (free tr)"
  by (cases tr) (simp_all add: distinct_new_Set Let_def)

subsection \<open>The fresh-name counter\<close>

text \<open>
  C2, as stated: \<open>next\<close> leaves the state it is called on unchanged, so two calls on the same
  state return the same integer. On the code this is false: a second call on the object
  \<open>makeState\<close> returned yields a different integer than the first.
\<close>

theorem State_next_twice_differs:
  "fst (fst (State_next (fst (makeState world0))
              (snd (State_next (fst (makeState world0)) (snd (makeState world0))))))
   \<noteq> fst (fst (State_next (fst (makeState world0)) (snd (makeState world0))))"
  by code_simp

text \<open>
  C2, amended: the state is a mutable object. \<open>next\<close> increments the counter of the object it
  is called on in place and returns the incremented counter with that same object; nothing
  else in the store changes. Two calls in a row on the same object return \<open>k + 1\<close> and
  \<open>k + 2\<close>, where \<open>k\<close> is the counter before the first call.
\<close>

theorem State_next_in_place:
  "State_next s w =
     ((State_curr s w + 1, s), w\<lparr>curr_own := (curr_own w)(s \<mapsto> State_curr s w + 1)\<rparr>)
   \<and> State_curr s (snd (State_next s w)) = State_curr s w + 1
   \<and> fst (fst (State_next s (snd (State_next s w)))) = State_curr s w + 2"
  by (simp add: State_next_def State_curr_def Let_def)

subsection \<open>Contexts\<close>

text \<open>
  C10. The claim: a context returned by \<open>makeContext\<close> is independent of every context made
  before; right after creation \<open>get\<close> finds exactly the entries passed in, and \<open>set\<close> and
  \<open>del\<close> on one context never change what \<open>get\<close> returns on another.

  The prototype-based \<open>makeContext\<close> breaks it: all its contexts work on the one \<open>Map\<close> of
  \<open>contextProto\<close>. A context made from no entries, after one made from \<open>[(a, Num 1)]\<close>,
  finds \<open>a\<close>; and a \<open>del\<close> through the second context removes \<open>a\<close> from the first.
\<close>

theorem makeContext_proto_shares_map:
  "Context_get (fst (makeContext_proto [] (snd (makeContext_proto [(''a'', ENum 1)] world0)))) ''a''
     (snd (makeContext_proto [] (snd (makeContext_proto [(''a'', ENum 1)] world0))))
   = Some (ENum 1)
   \<and> Context_get (fst (makeContext_proto [(''a'', ENum 1)] world0)) ''a''
     (snd (Context_del (fst (makeContext_proto [] (snd (makeContext_proto [(''a'', ENum 1)] world0)))) ''a''
        (snd (makeContext_proto [] (snd (makeContext_proto [(''a'', ENum 1)] world0))))))
   = None"
  by code_simp

lemma Context_set_all_get:
  "Context_get c k (Context_set_all c entries w) =
     (case map_of (rev entries) k of None \<Rightarrow> Context_get c k w | Some v \<Rightarrow> Some v)"
  by (induction entries arbitrary: w)
     (auto simp: Context_get_def Context_set_def split: option.splits)

lemma Context_set_all_other:
  "c' \<noteq> c \<Longrightarrow> Context_get c' k (Context_set_all c entries w) = Context_get c' k w"
  by (induction entries arbitrary: w) (auto simp: Context_get_def Context_set_def)

text \<open>
  The closure-based \<open>makeContext\<close> does what C10 says. Right after creation, \<open>get\<close> finds the
  latest binding of a key among the entries and nothing else, whatever the store held.
\<close>

theorem makeContext_get:
  "Context_get (fst (makeContext entries w)) k (snd (makeContext entries w))
   = map_of (rev entries) k"
  by (simp add: makeContext_def Let_def Context_set_all_get)
     (simp add: Context_get_def split: option.splits)

text \<open>
  \<open>set\<close> and \<open>del\<close> on a context leave what \<open>get\<close> returns on every context with another
  \<open>Map\<close> as it was.
\<close>

theorem Context_frame:
  "c' \<noteq> c \<Longrightarrow>
     Context_get c' k (snd (Context_set c key v w)) = Context_get c' k w
     \<and> Context_get c' k (snd (Context_del c key w)) = Context_get c' k w"
  by (simp add: Context_get_def Context_set_def Context_del_def)

theorem Context_frame_witness:
  "fst x_context \<noteq> fst (makeContext [] (snd x_context))
   \<and> Context_get (fst x_context) ''x''
       (snd (Context_del (fst (makeContext [] (snd x_context))) ''x''
              (snd (makeContext [] (snd x_context)))))
     = Context_get (fst x_context) ''x'' (snd (makeContext [] (snd x_context)))"
proof -
  have n: "fst x_context \<noteq> fst (makeContext [] (snd x_context))"
    by code_simp
  show ?thesis
    using n Context_frame[OF n, of "''x''" "''x''" "ENum 0" "snd (makeContext [] (snd x_context))"]
    by simp
qed

text \<open>
  The closure-based \<open>makeContext\<close> returns a context on a \<open>Map\<close> allocated by the call, and
  leaves what \<open>get\<close> returns on every other context as it was.
\<close>

theorem makeContext_frame:
  "c' \<noteq> map_count w \<Longrightarrow>
     fst (makeContext entries w) = map_count w
     \<and> Context_get c' k (snd (makeContext entries w)) = Context_get c' k w"
  by (simp add: makeContext_def Let_def Context_set_all_other) (simp add: Context_get_def)

theorem makeContext_frame_witness:
  "fst x_context \<noteq> map_count (snd x_context)
   \<and> fst (makeContext [(''x'', ENum 7)] (snd x_context)) = map_count (snd x_context)
   \<and> Context_get (fst x_context) ''x'' (snd (makeContext [(''x'', ENum 7)] (snd x_context)))
     = Some (EIdx ''env'' 0)"
proof -
  have n: "fst x_context \<noteq> map_count (snd x_context)"
    by code_simp
  have g: "Context_get (fst x_context) ''x'' (snd x_context) = Some (EIdx ''env'' 0)"
    by code_simp
  show ?thesis
    using n g makeContext_frame[OF n, of "[(''x'', ENum 7)]" "''x''"] by simp
qed

subsection \<open>Substitution\<close>

text \<open>
  C3. The claim: \<open>substitute\<close> replaces every non-shadowed \<open>Ref(n)\<close> by \<open>map[n]\<close>, and the
  removal of a \<open>Let\<close>-bound name from the map holds within that \<open>Let\<close>'s body only, not for
  sibling subexpressions or later uses of the map.

  \<open>del\<close> deletes the key from the context's \<open>Map\<close> in place, so the removal outlives the
  body. With the map \<open>x \<mapsto> Idx(env, 0)\<close>, the second element of the captured list
  \<open>[Let(x, 1, Ref x), Ref x]\<close> is outside the \<open>Let\<close> and stays \<open>Ref x\<close>, and after the call
  the map no longer holds \<open>x\<close>.
\<close>

theorem substitute_del_leaks:
  "fst (substitute (fst x_context)
         (ECls ''f'' [ELet ''x'' (ENum 1) (ERef ''x''), ERef ''x'']) (snd x_context))
   = ECls ''f'' [ELet ''x'' (ENum 1) (ERef ''x''), ERef ''x'']
   \<and> Context_get (fst x_context) ''x'' (snd x_context) = Some (EIdx ''env'' 0)
   \<and> Context_get (fst x_context) ''x''
       (snd (substitute (fst x_context)
              (ECls ''f'' [ELet ''x'' (ENum 1) (ERef ''x''), ERef ''x'']) (snd x_context)))
     = None"
  by code_simp

lemma drop_keys_empty [simp]: "drop_keys c {} w = w"
  by (simp add: drop_keys_def)

lemma drop_keys_twice [simp]: "drop_keys c a (drop_keys c b w) = drop_keys c (a \<union> b) w"
  by (auto simp: drop_keys_def fun_eq_iff intro!: arg_cong[where f="\<lambda>m. w\<lparr>maps := m\<rparr>"])

lemma Context_del_drop: "Context_del c n w = (c, drop_keys c {n} w)"
  by (auto simp: Context_del_def drop_keys_def fun_eq_iff
      intro!: arg_cong[where f="\<lambda>m. w\<lparr>maps := m\<rparr>"])

lemma substitute_store:
  "snd (substitute c e w) = drop_keys c (let_names e) w"
  "snd (substituteLet c n b bd w) = drop_keys c (insert n (let_names b \<union> let_names bd)) w"
  "snd (substituteCls c p es w) = drop_keys c (\<Union> (set (map let_names es))) w"
  "snd (substituteApp c f a w) = drop_keys c (let_names a) w"
  "snd (substituteEach c es w) = drop_keys c (\<Union> (set (map let_names es))) w"
proof (induction c e w and c n b bd w and c p es w and c f a w and c es w
    rule: substitute_substituteLet_substituteCls_substituteApp_substituteEach.induct)
  case (3 ctx data w)
  then show ?case by (simp add: substituteRef_def split: option.splits)
next
  case (7 ctx name bind body w)
  obtain nb w1 where b: "substitute ctx bind w = (nb, w1)"
    by (cases "substitute ctx bind w")
  obtain nbd w3 where bd: "substitute ctx body (drop_keys ctx {name} w1) = (nbd, w3)"
    by (cases "substitute ctx body (drop_keys ctx {name} w1)")
  have w1: "w1 = drop_keys ctx (let_names bind) w"
    using 7(1) b by simp
  have "w3 = drop_keys ctx (let_names body) (drop_keys ctx {name} w1)"
    using 7(2)[of _ nb w1 _ ctx "drop_keys ctx {name} w1"] b bd by (simp add: Context_del_drop)
  then have "w3 = drop_keys ctx (insert name (let_names bind \<union> let_names body)) w"
    unfolding w1 by (simp add: Un_commute Un_left_commute insert_commute Un_assoc)
  then show ?case
    using b bd by (simp add: Context_del_drop)
next
  case (11 ctx e es w)
  obtain e' w1 where e: "substitute ctx e w = (e', w1)"
    by (cases "substitute ctx e w")
  obtain es' w2 where es: "substituteEach ctx es w1 = (es', w2)"
    by (cases "substituteEach ctx es w1")
  have w1: "w1 = drop_keys ctx (let_names e) w"
    using 11(1) e by simp
  have "w2 = drop_keys ctx (\<Union> (set (map let_names es))) w1"
    using 11(2)[of _ e' w1] e es by simp
  then have "w2 = drop_keys ctx (\<Union> (set (map let_names (e # es)))) w"
    unfolding w1 by (simp add: Un_commute)
  then show ?case
    using e es by simp
qed (auto split: prod.splits)

text \<open>
  What \<open>substitute\<close> does to the store, for every expression: it deletes from the \<open>Map\<close> of its
  context the names of all \<open>Let\<close> nodes of the expression, and changes nothing else.
\<close>

theorem substitute_deletes_let_names:
  "snd (substitute c e w) = drop_keys c (let_names e) w"
  by (rule substitute_store(1))

lemma let_free_names: "let_free e \<Longrightarrow> let_names e = {}"
  by (induction e) (auto simp: list_all_iff)

lemma substitute_value:
  "let_free e \<Longrightarrow> fst (substitute c e w) = substitute_spec (maps w c) e"
  "let_free (ELet n b bd) \<Longrightarrow>
     fst (substituteLet c n b bd w) = substitute_spec (maps w c) (ELet n b bd)"
  "list_all let_free es \<Longrightarrow>
     fst (substituteCls c p es w) = ECls p (map (substitute_spec (maps w c)) es)"
  "let_free a \<Longrightarrow> fst (substituteApp c f a w) = EApp f (substitute_spec (maps w c) a)"
  "list_all let_free es \<Longrightarrow> fst (substituteEach c es w) = map (substitute_spec (maps w c)) es"
proof (induction c e w and c n b bd w and c p es w and c f a w and c es w
    rule: substitute_substituteLet_substituteCls_substituteApp_substituteEach.induct)
  case (3 ctx data w)
  then show ?case by (simp add: substituteRef_def Context_get_def split: option.splits)
next
  case (11 ctx e es w)
  obtain e' w1 where e: "substitute ctx e w = (e', w1)"
    by (cases "substitute ctx e w")
  have "w1 = drop_keys ctx (let_names e) w"
    using substitute_store(1)[of ctx e w] e by simp
  then have w1: "w1 = w"
    using 11(3) by (simp add: let_free_names)
  show ?case
    using 11 e w1 by (auto split: prod.splits)
qed (auto split: prod.splits)

text \<open>
  On an expression without \<open>Let\<close> nodes \<open>substitute\<close> is the pure structural copy of the
  specification and leaves the store as it was.
\<close>

theorem substitute_pure_without_Let:
  "let_free e \<Longrightarrow> substitute c e w = (substitute_spec (maps w c) e, w)"
  using substitute_value(1)[of e c w] substitute_store(1)[of c e w]
  by (cases "substitute c e w") (simp add: let_free_names)

theorem substitute_pure_without_Let_witness:
  "let_free (ECls ''f'' [ERef ''x'', ERef ''y''])
   \<and> fst (substitute (fst x_context) (ECls ''f'' [ERef ''x'', ERef ''y'']) (snd x_context))
     = ECls ''f'' [EIdx ''env'' 0, ERef ''y'']
   \<and> snd (substitute (fst x_context) (ECls ''f'' [ERef ''x'', ERef ''y'']) (snd x_context))
     = snd x_context"
proof -
  have l: "let_free (ECls ''f'' [ERef ''x'', ERef ''y''])"
    by simp
  have m: "substitute_spec (maps (snd x_context) (fst x_context)) (ECls ''f'' [ERef ''x'', ERef ''y''])
      = ECls ''f'' [EIdx ''env'' 0, ERef ''y'']"
    by (simp add: x_context_def makeContext_def Let_def world0_def Context_set_def)
  show ?thesis
    using substitute_pure_without_Let[OF l, of "fst x_context" "snd x_context"] l m by simp
qed

subsection \<open>Closure conversion\<close>

text \<open>
  C1. The claim: in the body of every emitted \<open>Decl\<close>, a \<open>Ref\<close> names the declaration's
  parameter or a name bound by an enclosing \<open>Let\<close>, and every variable free in the lambda has
  become \<open>Idx(envName, i)\<close>, with \<open>i\<close> its position in the captured list.

  For \<open>let z = 5; fun y => (let z = fun a => a; z)(z)\<close> the lambda \<open>fun y => ...\<close> captures
  \<open>z\<close> (its \<open>Cls\<close> lists \<open>Ref z\<close>), but the argument \<open>z\<close> of the call, which is outside the
  inner \<open>let\<close>, is still \<open>Ref z\<close> in the body of \<open>cls2\<close>: substituting the inner \<open>let\<close>
  deleted \<open>z\<close> from the map for good. Both versions of \<open>makeContext\<close> give this program.
\<close>

theorem convert_leaves_free_Ref:
  "fst (convertCls makeContext shadow_tree world0) =
     [TDecl 0 ''cls4'' ''env3'' ''a'' (ERef ''a''),
      TDecl 1 ''cls2'' ''env1'' ''y''
        (ELet ''_5'' (ELet ''z'' (ECls ''cls4'' []) (ERef ''z'')) (EApp ''_5'' (ERef ''z''))),
      TMain (ELet ''z'' (ENum 5) (ECls ''cls2'' [ERef ''z'']))]
   \<and> fst (convertCls makeContext_proto shadow_tree world0)
     = fst (convertCls makeContext shadow_tree world0)
   \<and> \<not> refs_in_scope [''y'']
         (ELet ''_5'' (ELet ''z'' (ECls ''cls4'' []) (ERef ''z'')) (EApp ''_5'' (ERef ''z'')))"
  by code_simp

text \<open>
  C6. For every \<open>App(func, argm)\<close>: \<open>func\<close> is converted first; one fresh integer \<open>k\<close> is
  drawn from the state that conversion returns (its counter goes up by exactly one); \<open>argm\<close>
  is converted with the state after the draw; the residual expression is
  \<open>Let(_k, funcExpr, App(_k, argmExpr))\<close>; and the hoisted declarations are those of \<open>func\<close>
  followed by those of \<open>argm\<close>.
\<close>

theorem convert_App:
  "convert mk state0 (App func argm) w =
    (let ((funProg, (funcExpr, state1)), w1) = convert mk state0 func w;
         k = State_curr state1 w1 + 1;
         w2 = w1\<lparr>curr_own := (curr_own w1)(state1 \<mapsto> k)\<rparr>;
         ((argProg, (argmExpr, state4)), w3) = convert mk state1 argm w2
     in ((funProg @ argProg,
          (ELet (''_'' @ show_nat k) funcExpr (EApp (''_'' @ show_nat k) argmExpr), state4)),
         w3))"
  by (simp add: State_next_def State_curr_def Let_def split: prod.splits)

text \<open>
  The shared \<open>Map\<close> of the prototype-based \<open>makeContext\<close> reaches the output. For
  \<open>fun x => fun y => x\<close> the entry \<open>x \<mapsto> Idx(env3, 0)\<close> of the inner lambda is still in the
  \<open>Map\<close> when the body of the outer one is substituted, so the outer declaration, whose
  environment is \<open>env1\<close> and whose parameter is \<open>x\<close>, reads \<open>env3[0]\<close>. With a \<open>Map\<close> per context
  it refers to its parameter.
\<close>

theorem convert_proto_reads_foreign_env:
  "fst (convertCls makeContext_proto (Lam ''x'' (Lam ''y'' (Var ''x''))) world0) =
     [TDecl 1 ''cls4'' ''env3'' ''y'' (EIdx ''env3'' 0),
      TDecl 0 ''cls2'' ''env1'' ''x'' (ECls ''cls4'' [EIdx ''env3'' 0]),
      TMain (ECls ''cls2'' [])]
   \<and> fst (convertCls makeContext (Lam ''x'' (Lam ''y'' (Var ''x''))) world0) =
     [TDecl 1 ''cls4'' ''env3'' ''y'' (EIdx ''env3'' 0),
      TDecl 0 ''cls2'' ''env1'' ''x'' (ECls ''cls4'' [ERef ''x'']),
      TMain (ECls ''cls2'' [])]"
  by code_simp

lemma convert_state: "convert mk s t w = ((p, e, s'), w') \<Longrightarrow> s' = s"
proof (induction t arbitrary: s w p e s' w')
  case (Num x)
  then show ?case by (simp add: convertNum_def)
next
  case (Var x)
  then show ?case by (simp add: convertVar_def)
next
  case (Lam x b)
  from Lam.prems show ?case
    by (auto simp: State_next_def Let_def split: prod.splits dest: Lam.IH)
next
  case (App f a)
  from App.prems show ?case
    by (auto simp: State_next_def Let_def split: prod.splits dest: App.IH)
next
  case (LetT n b c)
  from LetT.prems show ?case
    by (auto simp: Let_def split: prod.splits dest: LetT.IH)
qed

text \<open>
  All the states the converter names are one object: \<open>convert\<close> returns the reference of the
  state it was given.
\<close>

theorem convert_returns_its_state: "snd (snd (fst (convert mk s t w))) = s"
  using convert_state[of mk s t w] by (cases "convert mk s t w") auto

subsection \<open>Scanner\<close>

lemma isDigit_peek_empty: "\<not> isDigit (peek [])"
  by (simp add: isDigit_def peek_def code_unit_def)











subsection \<open>Parser\<close>

text \<open>
  Facts about the cursor: a successful \<open>consumeToken\<close> or \<open>matchToken\<close> moves it by one, and
  every parsing function that returns a tree has moved it forward. With them, the fuel a call
  is given is enough whenever it is at least twice the number of tokens from the cursor on.
\<close>

lemma and_then_Inr: "and_then m f = Inr r \<longleftrightarrow> (\<exists>x. m = Inr x \<and> f x = Inr r)"
  by (cases m) (simp_all add: and_then_def)

lemma and_then_Inl: "and_then m f = Inl e \<longleftrightarrow> (m = Inl e \<or> (\<exists>x. m = Inr x \<and> f x = Inl e))"
  by (cases m) (simp_all add: and_then_def)

lemma peek_no_fuel: "parser_peek toks cur \<noteq> Inl Out_of_fuel"
  by (simp add: parser_peek_def split: option.splits)

lemma previous_no_fuel: "parser_previous toks cur \<noteq> Inl Out_of_fuel"
  by (simp add: parser_previous_def split: option.splits)

lemma isAtEnd_no_fuel: "parser_isAtEnd toks cur \<noteq> Inl Out_of_fuel"
  by (simp add: parser_isAtEnd_def and_then_Inl peek_no_fuel)

lemma check_no_fuel: "parser_check t toks cur \<noteq> Inl Out_of_fuel"
  by (auto simp: parser_check_def and_then_Inl peek_no_fuel isAtEnd_no_fuel)

lemma advance_no_fuel: "parser_advance toks cur \<noteq> Inl Out_of_fuel"
  by (auto simp: parser_advance_def and_then_Inl Let_def isAtEnd_no_fuel previous_no_fuel)

lemma matchToken_no_fuel: "parser_matchToken ts toks cur \<noteq> Inl Out_of_fuel"
  by (induction ts) (auto simp: and_then_Inl check_no_fuel advance_no_fuel split: prod.splits)

lemma check_lt: "parser_check t toks cur = Inr ok \<Longrightarrow> cur < length toks"
  by (auto simp: parser_check_def parser_isAtEnd_def parser_peek_def Array_at_def and_then_Inr Let_def
      split: option.splits if_splits)

lemma matchToken_cur:
  "parser_matchToken ts toks cur = Inr (b, c') \<Longrightarrow> c' = (if b then Suc cur else cur)"
proof (induction ts)
  case Nil
  then show ?case by simp
next
  case (Cons t ts)
  show ?case
  proof (cases "parser_check t toks cur")
    case (Inl e)
    with Cons.prems show ?thesis by (simp add: and_then_def)
  next
    case (Inr ok)
    show ?thesis
    proof (cases ok)
      case True
      with Inr Cons.prems obtain tk where a: "parser_advance toks cur = Inr (tk, c')" and b: "b"
        by (auto simp: and_then_Inr)
      from Inr True have "parser_isAtEnd toks cur = Inr False"
        by (auto simp: parser_check_def and_then_Inr split: if_splits)
      with a have "c' = Suc cur"
        by (auto simp: parser_advance_def and_then_Inr Let_def)
      with b show ?thesis by simp
    next
      case False
      with Inr Cons show ?thesis by (simp add: and_then_def)
    qed
  qed
qed

lemma matchToken_lt: "parser_matchToken (t # ts) toks cur = Inr r \<Longrightarrow> cur < length toks"
  by (auto simp: and_then_Inr dest: check_lt)

lemma consume_no_fuel:
  "(\<And>t. expect t \<noteq> Inl Out_of_fuel) \<Longrightarrow> consume expect truthy toks cur \<noteq> Inl Out_of_fuel"
  by (auto simp: consume_def and_then_Inl peek_no_fuel advance_no_fuel split: if_splits prod.splits)

lemma consumeToken_no_fuel: "consumeToken tg cb truthy toks cur \<noteq> Inl Out_of_fuel"
  unfolding consumeToken_def by (rule consume_no_fuel) simp

lemma consumeToken_cur:
  assumes "consumeToken tg cb truthy toks cur = Inr (v, c')" and "tg \<noteq> ''EOF''"
  shows "c' = Suc cur"
proof -
  from assms(1) obtain tk x where p: "parser_peek toks cur = Inr tk" and t: "isToken tg tk"
    and a: "parser_advance toks cur = Inr (x, c')"
    by (auto simp: consumeToken_def consume_def and_then_Inr split: if_splits)
  from p t assms(2) have "parser_isAtEnd toks cur = Inr False"
    by (auto simp: parser_isAtEnd_def and_then_def isToken_def)
  with a show ?thesis
    by (auto simp: parser_advance_def and_then_Inr Let_def)
qed

lemma parseNumber_no_fuel: "parseNumber toks cur \<noteq> Inl Out_of_fuel"
  by (auto simp: parseNumber_def and_then_Inl consumeToken_no_fuel)

lemma parseSymbol_no_fuel: "parseSymbol toks cur \<noteq> Inl Out_of_fuel"
  by (auto simp: parseSymbol_def and_then_Inl consumeToken_no_fuel)

lemma parseNumber_cur: "parseNumber toks cur = Inr (t, c') \<Longrightarrow> c' = Suc cur"
  by (auto simp: parseNumber_def and_then_Inr dest!: consumeToken_cur)

lemma parseSymbol_cur: "parseSymbol toks cur = Inr (t, c') \<Longrightarrow> c' = Suc cur"
  by (auto simp: parseSymbol_def and_then_Inr dest!: consumeToken_cur)

lemma fail_no_fuel: "fail toks cur \<noteq> Inl Out_of_fuel"
  by (auto simp: fail_def and_then_Inl peek_no_fuel)

lemma fail_Inr: "fail toks cur \<noteq> Inr r"
  by (auto simp: fail_def and_then_Inr)




lemma parseLet_progress:
  assumes E: "\<And>c t c'. expression n toks c = Inr (t, c') \<Longrightarrow> c < c'"
    and "parseLet n toks cur = Inr (t, c')"
  shows "cur < c'"
  using assms(2)
  by (auto simp: and_then_Inr dest!: consumeToken_cur E)

lemma parseFun_progress:
  assumes E: "\<And>c t c'. expression n toks c = Inr (t, c') \<Longrightarrow> c < c'"
    and "parseFun n toks cur = Inr (t, c')"
  shows "cur < c'"
  using assms(2)
  by (auto simp: and_then_Inr dest!: consumeToken_cur E)

lemma parseParens_progress:
  assumes E: "\<And>c t c'. expression n toks c = Inr (t, c') \<Longrightarrow> c < c'"
    and "parseParens n toks cur = Inr (t, c')"
  shows "cur < c'"
  using assms(2)
  by (auto simp: and_then_Inr dest!: consumeToken_cur E)

lemma parseAtom_progress:
  assumes E: "\<And>c t c'. expression n toks c = Inr (t, c') \<Longrightarrow> c < c'"
    and "parseAtom n toks cur = Inr (t, c')"
  shows "cur < c'"
proof -
  from assms(2) obtain tk where
    r: "(if isToken ''NUMBER'' tk then parseNumber toks cur
         else if isToken ''SYMBOL'' tk then parseSymbol toks cur
         else if isToken ''LPAREN'' tk then parseParens n toks cur
         else fail toks cur) = Inr (t, c')"
    by (auto simp: and_then_Inr)
  consider (num) "parseNumber toks cur = Inr (t, c')"
    | (sym) "parseSymbol toks cur = Inr (t, c')"
    | (par) "parseParens n toks cur = Inr (t, c')"
    using r by (auto simp: fail_Inr simp del: parseParens.simps split: if_splits)
  then show ?thesis
  proof cases
    case num
    then show ?thesis using parseNumber_cur by fastforce
  next
    case sym
    then show ?thesis using parseSymbol_cur by fastforce
  next
    case par
    with E show ?thesis by (rule parseParens_progress)
  qed
qed

lemma parseCall_progress:
  assumes E: "\<And>m c t c'. m < n \<Longrightarrow> expression m toks c = Inr (t, c') \<Longrightarrow> c < c'"
    and "parseCall n func args toks cur = Inr (t, c')"
  shows "cur < c'"
  using assms
proof (induction n arbitrary: args cur)
  case 0
  then show ?case by simp
next
  case (Suc n)
  have E': "\<And>m c t c'. m < n \<Longrightarrow> expression m toks c = Inr (t, c') \<Longrightarrow> c < c'"
    using Suc.prems(1) less_SucI by blast
  from Suc.prems(2) obtain arg c1 isComma c2 where
    e: "expression n toks cur = Inr (arg, c1)" and
    m: "parser_matchToken [COMMA] toks c1 = Inr (isComma, c2)" and
    r: "(if isComma then parseCall n func (args @ [arg]) toks c2
         else and_then (parser_matchToken [RPAREN] toks c2)
                (\<lambda>(_, c3). Inr (foldl App func (args @ [arg]), c3))) = Inr (t, c')"
    by (auto simp: and_then_Inr)
  have 1: "cur < c1"
    using Suc.prems(1)[of n cur arg c1] e by simp
  have 2: "c1 \<le> c2"
    using matchToken_cur[OF m] by (simp split: if_splits)
  have 3: "c2 \<le> c'"
  proof (cases isComma)
    case True
    with r have "parseCall n func (args @ [arg]) toks c2 = Inr (t, c')" by simp
    with E' have "c2 < c'"
      by (rule Suc.IH)
    then show ?thesis by simp
  next
    case False
    with r obtain b where "parser_matchToken [RPAREN] toks c2 = Inr (b, c')"
      by (auto simp: and_then_Inr simp del: parser_matchToken.simps)
    then show ?thesis
      using matchToken_cur by fastforce
  qed
  from 1 2 3 show ?case by simp
qed

lemma parseApp_progress:
  assumes E: "\<And>m c t c'. m \<le> n \<Longrightarrow> expression m toks c = Inr (t, c') \<Longrightarrow> c < c'"
    and "parseApp n toks cur = Inr (t, c')"
  shows "cur < c'"
proof -
  have En: "\<And>c t c'. expression n toks c = Inr (t, c') \<Longrightarrow> c < c'"
    using E by blast
  have El: "\<And>m c t c'. m < n \<Longrightarrow> expression m toks c = Inr (t, c') \<Longrightarrow> c < c'"
    using E less_imp_le by blast
  from assms(2) obtain func c1 isCall c2 where
    a: "parseAtom n toks cur = Inr (func, c1)" and
    m: "parser_matchToken [LPAREN] toks c1 = Inr (isCall, c2)" and
    r: "(if isCall then parseCall n func [] toks c2 else Inr (func, c2)) = Inr (t, c')"
    by (auto simp: and_then_Inr)
  have "cur < c1"
    using En a by (rule parseAtom_progress)
  moreover have "c1 \<le> c2"
    using matchToken_cur[OF m] by (simp split: if_splits)
  moreover have "c2 \<le> c'"
  proof (cases isCall)
    case True
    with r have "parseCall n func [] toks c2 = Inr (t, c')" by simp
    with El have "c2 < c'"
      by (rule parseCall_progress)
    then show ?thesis by simp
  next
    case False
    with r show ?thesis by simp
  qed
  ultimately show ?thesis by simp
qed

lemma expression_progress: "expression n toks cur = Inr (t, c') \<Longrightarrow> cur < c'"
proof (induction n arbitrary: cur t c' rule: less_induct)
  case (less n)
  show ?case
  proof (cases n)
    case 0
    with less.prems show ?thesis by simp
  next
    case (Suc k)
    have E: "\<And>m c t c'. m \<le> k \<Longrightarrow> expression m toks c = Inr (t, c') \<Longrightarrow> c < c'"
      using less.IH Suc less_Suc_eq_le by blast
    have Ek: "\<And>c t c'. expression k toks c = Inr (t, c') \<Longrightarrow> c < c'"
      using E by blast
    from less.prems Suc obtain isLet c1 where
      m1: "parser_matchToken [LET] toks cur = Inr (isLet, c1)" and
      r1: "(if isLet then parseLet k toks c1
            else and_then (parser_matchToken [FUN] toks c1) (\<lambda>(isFun, c2).
              if isFun then parseFun k toks c2 else parseApp k toks c2)) = Inr (t, c')"
      by (auto simp: and_then_Inr)
    have c1: "cur \<le> c1"
      using matchToken_cur[OF m1] by (simp split: if_splits)
    show ?thesis
    proof (cases isLet)
      case True
      with r1 have "parseLet k toks c1 = Inr (t, c')" by simp
      with Ek have "c1 < c'"
        by (rule parseLet_progress)
      with c1 show ?thesis by simp
    next
      case False
      with r1 obtain isFun c2 where
        m2: "parser_matchToken [FUN] toks c1 = Inr (isFun, c2)" and
        r2: "(if isFun then parseFun k toks c2 else parseApp k toks c2) = Inr (t, c')"
        by (auto simp: and_then_Inr)
      have c2: "c1 \<le> c2"
        using matchToken_cur[OF m2] by (simp split: if_splits)
      have "c2 < c'"
      proof (cases isFun)
        case True
        with r2 have "parseFun k toks c2 = Inr (t, c')" by simp
        with Ek show ?thesis
          by (rule parseFun_progress)
      next
        case False
        with r2 have "parseApp k toks c2 = Inr (t, c')" by simp
        with E show ?thesis
          by (rule parseApp_progress)
      qed
      with c1 c2 show ?thesis by simp
    qed
  qed
qed


lemma expression_lt: "expression n toks cur = Inr r \<Longrightarrow> cur < length toks"
proof (cases n)
  case 0
  then show "expression n toks cur = Inr r \<Longrightarrow> cur < length toks" by simp
next
  case (Suc k)
  assume "expression n toks cur = Inr r"
  with Suc obtain x where "parser_matchToken [LET] toks cur = Inr x"
    by (auto simp: and_then_Inr simp del: parser_matchToken.simps)
  then show "cur < length toks"
    by (rule matchToken_lt)
qed

lemma parseLet_fuel:
  assumes F: "\<And>c. cur < c \<Longrightarrow> expression n toks c \<noteq> Inl Out_of_fuel"
  shows "parseLet n toks cur \<noteq> Inl Out_of_fuel"
proof
  assume "parseLet n toks cur = Inl Out_of_fuel"
  then obtain name c1 x c2 where
    1: "consumeToken ''SYMBOL'' token_value_string truthy_string toks cur = Inr (name, c1)" and
    2: "consumeToken ''EQUAL'' id truthy_object toks c1 = Inr (x, c2)" and
    3: "and_then (expression n toks c2) (\<lambda>(bind, c3).
          and_then (consumeToken ''SEMICOLON'' id truthy_object toks c3) (\<lambda>(_, c4).
          and_then (expression n toks c4) (\<lambda>(body, c5).
            Inr (LetT name bind body, c5)))) = Inl Out_of_fuel"
    by (auto simp: and_then_Inl consumeToken_no_fuel)
  have c2: "cur < c2"
    using consumeToken_cur[OF 1] consumeToken_cur[OF 2] by simp
  with F have "expression n toks c2 \<noteq> Inl Out_of_fuel" .
  with 3 obtain bind c3 y c4 where
    4: "expression n toks c2 = Inr (bind, c3)" and
    5: "consumeToken ''SEMICOLON'' id truthy_object toks c3 = Inr (y, c4)" and
    6: "and_then (expression n toks c4) (\<lambda>(body, c5). Inr (LetT name bind body, c5))
          = Inl Out_of_fuel"
    by (auto simp: and_then_Inl consumeToken_no_fuel)
  have "cur < c4"
    using c2 expression_progress[OF 4] consumeToken_cur[OF 5] by simp
  with F have "expression n toks c4 \<noteq> Inl Out_of_fuel" .
  with 6 show False
    by (auto simp: and_then_Inl)
qed

lemma parseFun_fuel:
  assumes F: "\<And>c. cur < c \<Longrightarrow> expression n toks c \<noteq> Inl Out_of_fuel"
  shows "parseFun n toks cur \<noteq> Inl Out_of_fuel"
proof
  assume "parseFun n toks cur = Inl Out_of_fuel"
  then obtain param c1 x c2 where
    1: "consumeToken ''SYMBOL'' token_value_string truthy_string toks cur = Inr (param, c1)" and
    2: "consumeToken ''ARROW'' id truthy_object toks c1 = Inr (x, c2)" and
    3: "and_then (expression n toks c2) (\<lambda>(body, c3). Inr (Lam param body, c3))
          = Inl Out_of_fuel"
    by (auto simp: and_then_Inl consumeToken_no_fuel)
  have "cur < c2"
    using consumeToken_cur[OF 1] consumeToken_cur[OF 2] by simp
  with F have "expression n toks c2 \<noteq> Inl Out_of_fuel" .
  with 3 show False
    by (auto simp: and_then_Inl)
qed

lemma parseParens_fuel:
  assumes F: "\<And>c. cur < c \<Longrightarrow> expression n toks c \<noteq> Inl Out_of_fuel"
  shows "parseParens n toks cur \<noteq> Inl Out_of_fuel"
proof
  assume "parseParens n toks cur = Inl Out_of_fuel"
  then obtain x c1 where
    1: "consumeToken ''LPAREN'' id truthy_object toks cur = Inr (x, c1)" and
    3: "and_then (expression n toks c1) (\<lambda>(val, c2).
          and_then (consumeToken ''RPAREN'' id truthy_object toks c2) (\<lambda>(_, c3).
            Inr (val, c3))) = Inl Out_of_fuel"
    by (auto simp: and_then_Inl consumeToken_no_fuel)
  have "cur < c1"
    using consumeToken_cur[OF 1] by simp
  with F have "expression n toks c1 \<noteq> Inl Out_of_fuel" .
  with 3 show False
    by (auto simp: and_then_Inl consumeToken_no_fuel)
qed

lemma parseAtom_fuel:
  assumes F: "\<And>c. cur < c \<Longrightarrow> expression n toks c \<noteq> Inl Out_of_fuel"
  shows "parseAtom n toks cur \<noteq> Inl Out_of_fuel"
proof
  assume "parseAtom n toks cur = Inl Out_of_fuel"
  then obtain tk where
    "(if isToken ''NUMBER'' tk then parseNumber toks cur
      else if isToken ''SYMBOL'' tk then parseSymbol toks cur
      else if isToken ''LPAREN'' tk then parseParens n toks cur
      else fail toks cur) = Inl Out_of_fuel"
    by (auto simp: and_then_Inl peek_no_fuel)
  then have "parseParens n toks cur = Inl Out_of_fuel"
    by (auto simp: parseNumber_no_fuel parseSymbol_no_fuel fail_no_fuel
        simp del: parseParens.simps split: if_splits)
  with parseParens_fuel[OF F] show False
    by simp
qed

lemma parseCall_fuel:
  assumes F: "\<And>m c. m < n \<Longrightarrow> 2 * (length toks - c) + 1 \<le> m
                \<Longrightarrow> expression m toks c \<noteq> Inl Out_of_fuel"
    and "2 * (length toks - cur) + 2 \<le> n"
  shows "parseCall n func args toks cur \<noteq> Inl Out_of_fuel"
  using assms
proof (induction n arbitrary: args cur)
  case 0
  then show ?case by simp
next
  case (Suc n)
  have F': "\<And>m c. m < n \<Longrightarrow> 2 * (length toks - c) + 1 \<le> m
                \<Longrightarrow> expression m toks c \<noteq> Inl Out_of_fuel"
    using Suc.prems(1) less_SucI by blast
  have e: "expression n toks cur \<noteq> Inl Out_of_fuel"
    using Suc.prems(1)[of n cur] Suc.prems(2) by simp
  show ?case
  proof
    assume "parseCall (Suc n) func args toks cur = Inl Out_of_fuel"
    with e obtain arg c1 isComma c2 where
      1: "expression n toks cur = Inr (arg, c1)" and
      2: "parser_matchToken [COMMA] toks c1 = Inr (isComma, c2)" and
      3: "(if isComma then parseCall n func (args @ [arg]) toks c2
           else and_then (parser_matchToken [RPAREN] toks c2)
                  (\<lambda>(_, c3). Inr (foldl App func (args @ [arg]), c3))) = Inl Out_of_fuel"
      using matchToken_no_fuel[of "[COMMA]"]
      by (auto simp: and_then_Inl simp del: parser_matchToken.simps)
    show False
    proof (cases isComma)
      case True
      have "cur < length toks"
        using 1 by (rule expression_lt)
      moreover have "cur < c1"
        using 1 by (rule expression_progress)
      moreover have "c2 = Suc c1"
        using matchToken_cur[OF 2] True by simp
      ultimately have "2 * (length toks - c2) + 2 \<le> n"
        using Suc.prems(2) by simp
      with F' have "parseCall n func (args @ [arg]) toks c2 \<noteq> Inl Out_of_fuel"
        by (rule Suc.IH)
      with 3 True show False by simp
    next
      case False
      with 3 show False
        using matchToken_no_fuel[of "[RPAREN]"]
        by (auto simp: and_then_Inl simp del: parser_matchToken.simps)
    qed
  qed
qed

lemma parseApp_fuel:
  assumes F: "\<And>m c. m \<le> n \<Longrightarrow> 2 * (length toks - c) + 1 \<le> m
                \<Longrightarrow> expression m toks c \<noteq> Inl Out_of_fuel"
    and "cur < length toks" and "2 * (length toks - cur) \<le> n"
  shows "parseApp n toks cur \<noteq> Inl Out_of_fuel"
proof
  have Fn: "\<And>c. cur < c \<Longrightarrow> expression n toks c \<noteq> Inl Out_of_fuel"
    using F[of n] assms(2,3) by simp
  have Fl: "\<And>m c. m < n \<Longrightarrow> 2 * (length toks - c) + 1 \<le> m
                \<Longrightarrow> expression m toks c \<noteq> Inl Out_of_fuel"
    using F less_imp_le by blast
  assume "parseApp n toks cur = Inl Out_of_fuel"
  with parseAtom_fuel[OF Fn] obtain func c1 isCall c2 where
    1: "parseAtom n toks cur = Inr (func, c1)" and
    2: "parser_matchToken [LPAREN] toks c1 = Inr (isCall, c2)" and
    3: "(if isCall then parseCall n func [] toks c2 else Inr (func, c2)) = Inl Out_of_fuel"
    using matchToken_no_fuel[of "[LPAREN]"]
    by (auto simp: and_then_Inl simp del: parser_matchToken.simps parseAtom.simps)
  from 3 have c: "isCall" and 4: "parseCall n func [] toks c2 = Inl Out_of_fuel"
    by (auto split: if_splits)
  have "cur < c1"
    using 1 expression_progress by (rule parseAtom_progress[rotated])
  moreover have "c2 = Suc c1"
    using matchToken_cur[OF 2] c by simp
  ultimately have "2 * (length toks - c2) + 2 \<le> n"
    using assms(2,3) by simp
  with Fl have "parseCall n func [] toks c2 \<noteq> Inl Out_of_fuel"
    by (rule parseCall_fuel)
  with 4 show False by simp
qed

lemma expression_fuel:
  "2 * (length toks - cur) + 1 \<le> n \<Longrightarrow> expression n toks cur \<noteq> Inl Out_of_fuel"
proof (induction n arbitrary: cur rule: less_induct)
  case (less n)
  from less.prems obtain k where n: "n = Suc k"
    by (cases n) auto
  have F: "\<And>m c. m \<le> k \<Longrightarrow> 2 * (length toks - c) + 1 \<le> m
                \<Longrightarrow> expression m toks c \<noteq> Inl Out_of_fuel"
    using less.IH n less_Suc_eq_le by blast
  show ?case
  proof
    assume "expression n toks cur = Inl Out_of_fuel"
    with n obtain isLet c1 where
      1: "parser_matchToken [LET] toks cur = Inr (isLet, c1)" and
      2: "(if isLet then parseLet k toks c1
            else and_then (parser_matchToken [FUN] toks c1) (\<lambda>(isFun, c2).
              if isFun then parseFun k toks c2 else parseApp k toks c2)) = Inl Out_of_fuel"
      using matchToken_no_fuel[of "[LET]"]
      by (auto simp: and_then_Inl simp del: parser_matchToken.simps parseLet.simps
          parseFun.simps parseApp.simps)
    have lt: "cur < length toks"
      using 1 by (rule matchToken_lt)
    with less.prems n have k: "2 * (length toks - cur) \<le> k"
      by simp
    have Fk: "\<And>c. cur < c \<Longrightarrow> expression k toks c \<noteq> Inl Out_of_fuel"
      using F[of k] lt k by simp
    show False
    proof (cases isLet)
      case True
      have "cur \<le> c1"
        using matchToken_cur[OF 1] by (simp split: if_splits)
      then have "\<And>c. c1 < c \<Longrightarrow> expression k toks c \<noteq> Inl Out_of_fuel"
        using Fk by simp
      then have "parseLet k toks c1 \<noteq> Inl Out_of_fuel"
        by (rule parseLet_fuel)
      with 2 True show False by simp
    next
      case False
      then have c1: "c1 = cur"
        using matchToken_cur[OF 1] by simp
      from 2 False obtain isFun c2 where
        3: "parser_matchToken [FUN] toks c1 = Inr (isFun, c2)" and
        4: "(if isFun then parseFun k toks c2 else parseApp k toks c2) = Inl Out_of_fuel"
        using matchToken_no_fuel[of "[FUN]"]
        by (auto simp: and_then_Inl simp del: parser_matchToken.simps parseLet.simps
            parseFun.simps parseApp.simps)
      show False
      proof (cases isFun)
        case True
        have "cur \<le> c2"
          using matchToken_cur[OF 3] c1 by (simp split: if_splits)
        then have "\<And>c. c2 < c \<Longrightarrow> expression k toks c \<noteq> Inl Out_of_fuel"
          using Fk by simp
        then have "parseFun k toks c2 \<noteq> Inl Out_of_fuel"
          by (rule parseFun_fuel)
        with 4 True show False by simp
      next
        case False
        then have "c2 = cur"
          using matchToken_cur[OF 3] c1 by simp
        with F lt k have "parseApp k toks c2 \<noteq> Inl Out_of_fuel"
          by (intro parseApp_fuel) simp_all
        with 4 False show False by simp
      qed
    qed
  qed
qed

text \<open>
  The fuel \<open>parser\<close> starts with is never used up, whatever the tokens: an error of the model's
  parser is an error the code throws, and a tree it returns is the tree the code returns.
\<close>

theorem parser_fuel_suffices: "parser toks \<noteq> Inl Out_of_fuel"
proof -
  have "expression (2 * length toks + 1) toks 0 \<noteq> Inl Out_of_fuel"
    by (rule expression_fuel) simp
  then show ?thesis
    by (auto simp: parser_def and_then_Inl)
qed

text \<open>
  C4. The claim: on every token sequence that violates the grammar, for example an argument
  list whose closing \<open>RPAREN\<close> is missing, \<open>parse\<close> fails with a \<open>ParseError\<close> naming the
  unexpected token and returns no tree.

  \<open>parseCall\<close> ends its argument list with \<open>matchToken({ tag: "RPAREN" })\<close> and drops the
  result, so a missing \<open>)\<close> goes unnoticed: the tokens of \<open>f(1\<close> parse to \<open>App(f, 1)\<close>, with
  any fuel from \<open>3\<close> on. \<open>parseParens\<close> uses \<open>consumeToken("RPAREN")\<close> and does throw on the
  tokens of \<open>(1\<close>.
\<close>

theorem parseCall_accepts_missing_RPAREN:
  "scanner ''f(1'' = Inr [SYMBOL ''f'', LPAREN, NUMBER 1, EOF]
   \<and> parser [SYMBOL ''f'', LPAREN, NUMBER 1, EOF] = Inr (App (Var ''f'') (Num 1))
   \<and> expression (Suc (Suc (Suc n))) [SYMBOL ''f'', LPAREN, NUMBER 1, EOF] 0
       = Inr (App (Var ''f'') (Num 1), 3)
   \<and> parser [LPAREN, NUMBER 1, EOF] = Inl (Expected_token ''RPAREN'' ''EOF'')"
proof -
  have "scanner ''f(1'' = Inr [SYMBOL ''f'', LPAREN, NUMBER 1, EOF]"
    by code_simp
  moreover have "parser [SYMBOL ''f'', LPAREN, NUMBER 1, EOF] = Inr (App (Var ''f'') (Num 1))"
    by code_simp
  moreover have "expression (Suc (Suc (Suc n))) [SYMBOL ''f'', LPAREN, NUMBER 1, EOF] 0
      = Inr (App (Var ''f'') (Num 1), 3)"
    by (simp add: and_then_def parser_check_def parser_isAtEnd_def parser_peek_def Array_at_def
        parser_advance_def parser_previous_def parseSymbol_def parseNumber_def consumeToken_def
        consume_def isToken_def truthy_string_def truthy_number_def)
  moreover have "parser [LPAREN, NUMBER 1, EOF] = Inl (Expected_token ''RPAREN'' ''EOF'')"
    by code_simp
  ultimately show ?thesis
    by simp
qed

subsection \<open>Code generation\<close>

text \<open>
  C7. The claim: for \<open>Cls(fn, captured)\<close> every captured expression is rendered under the
  identity continuation, and the outer continuation \<open>build\<close> is applied once, to the
  expression that constructs the closure, never to a captured element.

  \<open>codegenCls\<close> of main.ts renders the captured expressions with \<open>build\<close> itself. In the body of
  a declaration, where \<open>build\<close> is \<open>exprReturn\<close>, the closure of \<open>fun x => fun y => x\<close> comes out
  with a \<open>return\<close> statement inside the array literal. The second copy of \<open>codegenCls\<close> gives
  the text the claim describes.
\<close>

theorem codegenCls_applies_build_to_captured:
  "codegenExpr exprReturn (ECls ''cls4'' [ERef ''x''])
     = ''return build_cls(cls4, (struct val *[1]){ return x; });''
   \<and> codegenExpr' exprReturn (ECls ''cls4'' [ERef ''x''])
     = ''return build_cls(cls4, (struct val *[1]){ x });''"
  by code_simp

text \<open>
  The second copy of \<open>codegenCls\<close> does what C7 says, for every continuation: the captured
  expressions are rendered with \<open>sameReturn\<close> and joined in list order, and \<open>build\<close> is applied
  once, to the text that constructs the closure.
\<close>

theorem codegenCls'_renders_captured_with_sameReturn:
  "codegenCls' build prop body =
     build (''build_cls('' @ prop @ '', (struct val *['' @ show_nat (length body) @ '']){ ''
            @ join '', '' (map (codegenExpr' sameReturn) body) @ '' })'')"
  by simp

subsection \<open>Printing\<close>

text \<open>
  C8. The claim: \<open>print\<close> renders a value by its tag and nothing more: the placeholder line alone
  for a closure, the decimal integer and a newline for an integer.

  For a closure \<open>print_val\<close> falls through from \<open>case CLOSURE_T\<close> into \<open>case INT_T\<close> and prints a
  second line, the union read as an \<open>int\<close>; so its output is never the placeholder line alone.
  For an integer it prints the decimal value and a newline, as claimed.
\<close>

theorem print_val_closure_falls_through:
  "print_val \<lparr>tag_of = CLOSURE_T, c_integer = i\<rparr>
     = ''<#closure>'' @ [CHR 0x0A] @ show_int (sint i) @ [CHR 0x0A]
   \<and> print_val \<lparr>tag_of = CLOSURE_T, c_integer = i\<rparr> \<noteq> ''<#closure>'' @ [CHR 0x0A]
   \<and> print_val \<lparr>tag_of = INT_T, c_integer = i\<rparr> = show_int (sint i) @ [CHR 0x0A]"
  by (simp add: print_val_def printf_d_newline_def)

end
